theory Spec2Isabelle
  imports Main "HOL-Library.Option_ord"
begin

section \<open>SyncCalendars.py: mirroring busy time between two Outlook calendars\<close>

text \<open>
  The script talks to Outlook through COM. The embedding keeps the Python functions
  (\<open>get_calendar\<close>, \<open>get_events\<close>, \<open>event_overlaps\<close>, \<open>book_busy_time\<close>, the main loop)
  and makes the backend explicit:
  \<^item> an instant is an \<open>int\<close>, the number of microseconds of a naive \<open>datetime\<close>
    (the resolution of Python's \<open>datetime\<close> and \<open>timedelta\<close>);
  \<^item> a calendar folder is the list of its appointment items, recurrences expanded;
  \<^item> \<open>Start\<close> and \<open>End\<close> of an item are optional: \<open>None\<close> is a value on which
    \<open>.replace(tzinfo=None)\<close> raises;
  \<^item> a call into the backend (the fetch of the source events, the overlap query,
    \<open>Items.Add\<close>, \<open>Save\<close>, the read of \<open>event.Subject\<close> in the \<open>except\<close> clause of
    the main loop) may raise; the outcomes of the upcoming calls, in program order, are
    the list \<open>faults\<close> of the state, consumed one per call (an exhausted list means no
    further failure);
  \<^item> an exception that no \<open>except\<close> clause catches ends the script: it is recorded
    in \<open>uncaught\<close>, nothing runs after it, and the exit status is 1;
  \<^item> \<open>print\<close> appends a structured line to \<open>stdout\<close>.
\<close>

subsection \<open>Data\<close>

type_synonym time = int

record item =
  Subject :: string
  Start :: "time option"
  End :: "time option"
  Location :: string
  BusyStatus :: int
  Body :: string

datatype exn = AttributeError | com_error

datatype msg =
    Syncing string string string
  | ErrorAccessingCalendar string string
  | SourceNotFound string
  | TargetNotFound string
  | OverlapFound string time time
  | BookedBusyTime "time option" "time option"
  | ErrorCreatingEvent exn
  | ConflictExists "time option" "time option"
  | ErrorProcessing string exn
  | SyncingComplete

record outlook =
  Items :: "item list"
  faults :: "bool list"
  stdout :: "msg list"
  uncaught :: "exn option"

type_synonym folder = "item list"

record account =
  Name :: string
  Folders :: "(string \<times> folder) list"

record result =
  exit_status :: int
  console :: "msg list"
  target_items :: "item list option"

subsection \<open>Configuration\<close>

definition SOURCE_ACCOUNT :: string where
  "SOURCE_ACCOUNT = ''user@workemail.com''"

definition TARGET_ACCOUNT :: string where
  "TARGET_ACCOUNT = ''user@personalemail.com''"

definition CALENDAR_NAME :: string where
  "CALENDAR_NAME = ''Calendar''"

definition minutes :: "int \<Rightarrow> time" where
  "minutes n = n * 60000000"

definition days :: "int \<Rightarrow> time" where
  "days n = n * 86400000000"

definition START_DATE :: "time \<Rightarrow> time" where
  "START_DATE now = now"

definition END_DATE :: "time \<Rightarrow> time" where
  "END_DATE now = START_DATE now + days 30"

subsection \<open>Backend primitives\<close>

text \<open>
  \<open>strftime('%m/%d/%Y %I:%M %p')\<close> renders an instant down to the minute; \<open>strftime t\<close>
  is the instant that the rendered text denotes.
\<close>

definition strftime :: "time \<Rightarrow> time" where
  "strftime t = t - t mod 60000000"

text \<open>\<open>.replace(tzinfo=None)\<close> on a property value.\<close>

definition naive :: "time option \<Rightarrow> exn + time" where
  "naive v = (case v of None \<Rightarrow> Inl AttributeError | Some t \<Rightarrow> Inr t)"

text \<open>One call into the backend: whether it raises, and the state after it.\<close>

definition com_call :: "outlook \<Rightarrow> bool \<times> outlook" where
  "com_call w = (case faults w of [] \<Rightarrow> (False, w) | f # fs \<Rightarrow> (f, w\<lparr>faults := fs\<rparr>))"

definition print :: "msg \<Rightarrow> outlook \<Rightarrow> outlook" where
  "print m w = w\<lparr>stdout := stdout w @ [m]\<rparr>"

text \<open>
  The two \<open>Restrict\<close> filters. An item without a start or an end satisfies no
  comparison on that property.
\<close>

definition window_filter :: "time \<Rightarrow> time \<Rightarrow> item \<Rightarrow> bool" where
  "window_filter start_date end_date x =
     (case Start x of None \<Rightarrow> False
      | Some s \<Rightarrow> (case End x of None \<Rightarrow> False
                  | Some e \<Rightarrow> s \<ge> strftime start_date \<and> e \<le> strftime end_date))"

definition overlap_filter :: "time \<Rightarrow> time \<Rightarrow> item \<Rightarrow> bool" where
  "overlap_filter start end x =
     (case Start x of None \<Rightarrow> False
      | Some s \<Rightarrow> (case End x of None \<Rightarrow> False
                  | Some e \<Rightarrow> s < strftime end \<and> e > strftime start))"

subsection \<open>The functions of the script\<close>

fun get_calendar :: "account list \<Rightarrow> string \<Rightarrow> string \<Rightarrow> msg list \<times> folder option" where
  "get_calendar [] account_name calendar_name = ([], None)"
| "get_calendar (account # rest) account_name calendar_name =
     (if Name account = account_name then
        (case map_of (Folders account) calendar_name of
           Some calendar \<Rightarrow> ([], Some calendar)
         | None \<Rightarrow>
             (case get_calendar rest account_name calendar_name of
                (out, r) \<Rightarrow> (ErrorAccessingCalendar calendar_name account_name # out, r)))
      else get_calendar rest account_name calendar_name)"

text \<open>
  \<open>get_events\<close> (lines 37 to 47) is the list that the call returns when the backend
  answers; \<open>get_events_call\<close> is the call itself, which may raise.
\<close>

definition get_events :: "folder \<Rightarrow> time \<Rightarrow> time \<Rightarrow> item list" where
  "get_events calendar_folder start_date end_date =
     filter (window_filter start_date end_date) (sort_key Start calendar_folder)"

definition get_events_call ::
  "outlook \<Rightarrow> folder \<Rightarrow> time \<Rightarrow> time \<Rightarrow> (exn + item list) \<times> outlook" where
  "get_events_call w calendar_folder start_date end_date =
     (case com_call w of
        (True, w') \<Rightarrow> (Inl com_error, w')
      | (False, w') \<Rightarrow> (Inr (get_events calendar_folder start_date end_date), w'))"

definition buffer :: time where
  "buffer = minutes 1"

definition is_conflict :: "time \<Rightarrow> time \<Rightarrow> time \<Rightarrow> time \<Rightarrow> bool" where
  "is_conflict conflict_start conflict_end start end \<longleftrightarrow>
     (conflict_start - buffer \<le> start \<and> start \<le> conflict_end + buffer)
     \<or> (conflict_start \<le> start \<and> conflict_end \<ge> end)"

text \<open>
  The \<open>for conflict in conflicts\<close> loop (lines 62 to 69): the line printed for the
  first conflict that matches, if any.
\<close>

fun scan_conflicts :: "item list \<Rightarrow> time \<Rightarrow> time \<Rightarrow> exn + msg option" where
  "scan_conflicts [] start end = Inr None"
| "scan_conflicts (conflict # rest) start end =
     (case naive (Start conflict) of
        Inl e \<Rightarrow> Inl e
      | Inr conflict_start \<Rightarrow>
          (case naive (End conflict) of
             Inl e \<Rightarrow> Inl e
           | Inr conflict_end \<Rightarrow>
               if is_conflict conflict_start conflict_end start end
               then Inr (Some (OverlapFound (Subject conflict) conflict_start conflict_end))
               else scan_conflicts rest start end))"

text \<open>Lines 52 to 58: the sorted collection restricted by the overlap filter.\<close>

definition query_overlap :: "outlook \<Rightarrow> time \<Rightarrow> time \<Rightarrow> (exn + item list) \<times> outlook" where
  "query_overlap w start end =
     (case com_call w of
        (True, w') \<Rightarrow> (Inl com_error, w')
      | (False, w') \<Rightarrow>
          (Inr (filter (overlap_filter start end) (sort_key Start (Items w'))), w'))"

definition event_overlaps :: "outlook \<Rightarrow> time \<Rightarrow> time \<Rightarrow> (exn + bool) \<times> outlook" where
  "event_overlaps w start end =
     (case query_overlap w start end of
        (Inl e, w') \<Rightarrow> (Inl e, w')
      | (Inr conflicts, w') \<Rightarrow>
          (case scan_conflicts conflicts start end of
             Inl e \<Rightarrow> (Inl e, w')
           | Inr None \<Rightarrow> (Inr False, w')
           | Inr (Some found) \<Rightarrow> (Inr True, print found w')))"

definition busy_block :: "item \<Rightarrow> item" where
  "busy_block event =
     \<lparr>Subject = ''Busy'', Start = Start event, End = End event,
      Location = ''Reserved by Automation'', BusyStatus = 2,
      Body = ''Blocked due to event: '' @ Subject event\<rparr>"

text \<open>The \<open>try\<close> block of \<open>book_busy_time\<close> (lines 75 to 83).\<close>

definition book_busy_time_try :: "outlook \<Rightarrow> item \<Rightarrow> (exn + unit) \<times> outlook" where
  "book_busy_time_try w event =
     (case com_call w of
        (True, w1) \<Rightarrow> (Inl com_error, w1)
      | (False, w1) \<Rightarrow>
          if Start event = None \<or> End event = None then (Inl com_error, w1)
          else
            (case com_call w1 of
               (True, w2) \<Rightarrow> (Inl com_error, w2)
             | (False, w2) \<Rightarrow>
                 (Inr (),
                  print (BookedBusyTime (Start event) (End event))
                    (w2\<lparr>Items := Items w2 @ [busy_block event]\<rparr>))))"

definition book_busy_time :: "outlook \<Rightarrow> item \<Rightarrow> (exn + unit) \<times> outlook" where
  "book_busy_time w event =
     (case book_busy_time_try w event of
        (Inl e, w') \<Rightarrow> (Inr (), print (ErrorCreatingEvent e) w')
      | (Inr u, w') \<Rightarrow> (Inr u, w'))"

text \<open>The \<open>try\<close> block of the main loop (lines 107 to 114).\<close>

definition process_try :: "outlook \<Rightarrow> item \<Rightarrow> (exn + unit) \<times> outlook" where
  "process_try w event =
     (case naive (Start event) of
        Inl e \<Rightarrow> (Inl e, w)
      | Inr event_start \<Rightarrow>
          (case naive (End event) of
             Inl e \<Rightarrow> (Inl e, w)
           | Inr event_end \<Rightarrow>
               (case event_overlaps w event_start event_end of
                  (Inl e, w') \<Rightarrow> (Inl e, w')
                | (Inr False, w') \<Rightarrow> book_busy_time w' event
                | (Inr True, w') \<Rightarrow>
                    (Inr (), print (ConflictExists (Start event) (End event)) w'))))"

text \<open>
  The \<open>except\<close> clause of the main loop (lines 115 and 116). The message is built from
  \<open>event.Subject\<close>, read through the backend outside any \<open>try\<close>: when that read raises,
  nothing catches the exception.
\<close>

definition except_clause :: "outlook \<Rightarrow> item \<Rightarrow> exn \<Rightarrow> outlook" where
  "except_clause w event e =
     (case com_call w of
        (True, w') \<Rightarrow> w'\<lparr>uncaught := Some com_error\<rparr>
      | (False, w') \<Rightarrow> print (ErrorProcessing (Subject event) e) w')"

text \<open>One iteration of the main loop (lines 106 to 116).\<close>

definition process_event :: "outlook \<Rightarrow> item \<Rightarrow> outlook" where
  "process_event w event =
     (case process_try w event of
        (Inl e, w') \<Rightarrow> except_clause w' event e
      | (Inr u, w') \<Rightarrow> w')"

text \<open>The main loop (line 105): an uncaught exception leaves it.\<close>

fun process_events :: "outlook \<Rightarrow> item list \<Rightarrow> outlook" where
  "process_events w [] = w"
| "process_events w (event # rest) =
     (case uncaught w of
        None \<Rightarrow> process_events (process_event w event) rest
      | Some e \<Rightarrow> w)"

text \<open>
  Lines 101 to 118: what the script does once both calendars are resolved. The fetch
  on line 102 is outside any \<open>try\<close>; the last line is printed only if no exception
  ended the script before.
\<close>

definition sync :: "folder \<Rightarrow> folder \<Rightarrow> time \<Rightarrow> bool list \<Rightarrow> outlook" where
  "sync source_calendar target_calendar now fs =
     (case get_events_call
             \<lparr>Items = target_calendar, faults = fs, stdout = [], uncaught = None\<rparr>
             source_calendar (START_DATE now) (END_DATE now) of
        (Inl e, w) \<Rightarrow> w\<lparr>uncaught := Some e\<rparr>
      | (Inr source_events, w) \<Rightarrow>
          (let w' = process_events w source_events
           in case uncaught w' of
                None \<Rightarrow> print SyncingComplete w'
              | Some e \<Rightarrow> w'))"

text \<open>
  The script. \<open>exit()\<close> without an argument raises \<open>SystemExit(None)\<close>: the exit status
  is 0, as at the normal end of the script. After an uncaught exception the exit
  status is 1.
\<close>

definition main :: "account list \<Rightarrow> time \<Rightarrow> bool list \<Rightarrow> result" where
  "main namespace now fs =
     (case get_calendar namespace SOURCE_ACCOUNT CALENDAR_NAME of
        (out1, source_calendar) \<Rightarrow>
     (case get_calendar namespace TARGET_ACCOUNT CALENDAR_NAME of
        (out2, target_calendar) \<Rightarrow>
     (let out = Syncing SOURCE_ACCOUNT TARGET_ACCOUNT CALENDAR_NAME # out1 @ out2 in
      case source_calendar of
        None \<Rightarrow>
          \<lparr>exit_status = 0, console = out @ [SourceNotFound SOURCE_ACCOUNT],
           target_items = target_calendar\<rparr>
      | Some src \<Rightarrow>
          (case target_calendar of
             None \<Rightarrow>
               \<lparr>exit_status = 0, console = out @ [TargetNotFound TARGET_ACCOUNT],
                target_items = None\<rparr>
           | Some tgt \<Rightarrow>
               (let w = sync src tgt now fs
                in \<lparr>exit_status = (case uncaught w of None \<Rightarrow> 0 | Some e \<Rightarrow> 1),
                    console = out @ stdout w,
                    target_items = Some (Items w)\<rparr>)))))"

subsection \<open>Auxiliary notions for the statements\<close>

text \<open>The state after one backend call.\<close>

definition tick :: "outlook \<Rightarrow> outlook" where
  "tick w = w\<lparr>faults := tl (faults w)\<rparr>"

text \<open>
  The line that ends the processing of one event: every path through the loop body
  prints exactly one of these.
\<close>

fun terminal :: "msg \<Rightarrow> bool" where
  "terminal (BookedBusyTime s e) = True"
| "terminal (ErrorCreatingEvent e) = True"
| "terminal (ConflictExists s e) = True"
| "terminal (ErrorProcessing subject e) = True"
| "terminal m = False"

text \<open>The lines that \<open>book_busy_time\<close> prints.\<close>

fun booking :: "msg \<Rightarrow> bool" where
  "booking (BookedBusyTime s e) = True"
| "booking (ErrorCreatingEvent e) = True"
| "booking m = False"

text \<open>The lines printed before any event is fetched.\<close>

fun startup :: "msg \<Rightarrow> bool" where
  "startup (Syncing a b c) = True"
| "startup (ErrorAccessingCalendar c a) = True"
| "startup (SourceNotFound a) = True"
| "startup (TargetNotFound a) = True"
| "startup m = False"

text \<open>
  An event is covered by a list of items when the overlap query for it returns an item
  that the loop of \<open>event_overlaps\<close> accepts; an event whose start or end cannot be read
  never reaches the query.
\<close>

definition covered :: "item list \<Rightarrow> item \<Rightarrow> bool" where
  "covered its event \<longleftrightarrow>
     (case (Start event, End event) of
        (Some s, Some e) \<Rightarrow>
          (\<exists>c\<in>set its. \<exists>cs ce. Start c = Some cs \<and> End c = Some ce \<and>
              cs < strftime e \<and> strftime s < ce \<and> is_conflict cs ce s e)
      | _ \<Rightarrow> True)"

text \<open>Concrete data for the examples: an appointment, a time of day, a target calendar.\<close>

definition appointment :: "string \<Rightarrow> time \<Rightarrow> time \<Rightarrow> item" where
  "appointment subject s e =
     \<lparr>Subject = subject, Start = Some s, End = Some e, Location = [], BusyStatus = 2, Body = []\<rparr>"

definition clock :: "int \<Rightarrow> int \<Rightarrow> time" where
  "clock h m = minutes (60 * h + m)"

definition target :: "item list \<Rightarrow> bool list \<Rightarrow> outlook" where
  "target its fs = \<lparr>Items = its, faults = fs, stdout = [], uncaught = None\<rparr>"

lemmas script_defs =
  sync_def get_events_def START_DATE_def END_DATE_def days_def minutes_def window_filter_def
  overlap_filter_def strftime_def naive_def com_call_def print_def query_overlap_def
  event_overlaps_def is_conflict_def buffer_def busy_block_def book_busy_time_try_def
  book_busy_time_def process_try_def except_clause_def process_event_def get_events_call_def
  appointment_def clock_def target_def

section \<open>Properties\<close>

subsection \<open>Backend calls and printing\<close>

lemma buffer_value: "buffer = 60000000"
  by (simp add: buffer_def minutes_def)

lemma strftime_le: "strftime t \<le> t"
  by (simp add: strftime_def)

lemma tick_simps [simp]:
  "Items (tick w) = Items w" "stdout (tick w) = stdout w" "faults (tick w) = tl (faults w)"
  "uncaught (tick w) = uncaught w"
  by (simp_all add: tick_def)

lemma print_simps [simp]:
  "Items (print m w) = Items w" "stdout (print m w) = stdout w @ [m]"
  "faults (print m w) = faults w" "uncaught (print m w) = uncaught w"
  by (simp_all add: print_def)

lemma com_call_eq: "com_call w = (take 1 (faults w) = [True], tick w)"
  by (cases "faults w") (auto simp: com_call_def tick_def)

subsection \<open>The overlap query and the scan of its result\<close>

lemma overlap_filter_iff:
  "overlap_filter s e c \<longleftrightarrow>
     (\<exists>a b. Start c = Some a \<and> End c = Some b \<and> a < strftime e \<and> strftime s < b)"
  by (auto simp: overlap_filter_def split: option.splits)

lemma query_overlap_eq:
  "query_overlap w s e =
     (if take 1 (faults w) = [True] then (Inl com_error, tick w)
      else (Inr (filter (overlap_filter s e) (sort_key Start (Items w))), tick w))"
  by (simp add: query_overlap_def com_call_eq)

lemma query_overlap_Inr:
  assumes "query_overlap w s e = (Inr conflicts, w')"
  shows "set conflicts = {c \<in> set (Items w). overlap_filter s e c}"
  using assms by (auto simp: query_overlap_eq split: if_splits)

lemma scan_conflicts_no_match:
  assumes "\<forall>c\<in>set cs. \<exists>a b. Start c = Some a \<and> End c = Some b \<and> \<not> is_conflict a b s e"
  shows "scan_conflicts cs s e = Inr None"
  using assms by (induction cs) (auto simp: naive_def)

lemma scan_conflicts_match:
  assumes "\<forall>c\<in>set cs. Start c \<noteq> None \<and> End c \<noteq> None"
    and "c \<in> set cs" and "Start c = Some a" and "End c = Some b" and "is_conflict a b s e"
  shows "\<exists>m. scan_conflicts cs s e = Inr (Some m)"
  using assms by (induction cs) (auto simp: naive_def)

lemma scan_conflicts_readable:
  assumes "\<forall>c\<in>set cs. Start c \<noteq> None \<and> End c \<noteq> None"
  shows "\<exists>r. scan_conflicts cs s e = Inr r"
  using assms by (induction cs) (auto simp: naive_def)

lemma scan_conflicts_line:
  assumes "scan_conflicts cs s e = Inr (Some m)"
  shows "\<not> terminal m"
  using assms by (induction cs) (auto simp: naive_def split: option.splits if_splits)

lemma scan_filtered_match:
  assumes "c \<in> set its" "Start c = Some cs" "End c = Some ce"
    "cs < strftime e" "strftime s < ce" "is_conflict cs ce s e"
  shows "\<exists>m. scan_conflicts (filter (overlap_filter s e) (sort_key Start its)) s e = Inr (Some m)"
proof (rule scan_conflicts_match)
  show "\<forall>c\<in>set (filter (overlap_filter s e) (sort_key Start its)).
          Start c \<noteq> None \<and> End c \<noteq> None"
    by (auto simp: overlap_filter_iff)
  show "c \<in> set (filter (overlap_filter s e) (sort_key Start its))"
    using assms by (simp add: overlap_filter_iff)
qed (use assms in auto)

lemma scan_filtered_readable:
  "\<exists>r. scan_conflicts (filter (overlap_filter s e) (sort_key Start its)) s e = Inr r"
  by (rule scan_conflicts_readable) (auto simp: overlap_filter_iff)

lemma event_overlaps_match:
  assumes q: "query_overlap w start end = (Inr conflicts, w')"
    and c: "c \<in> set (Items w)" "Start c = Some cs" "End c = Some ce"
    and f: "cs < strftime end" "strftime start < ce"
    and m: "is_conflict cs ce start end"
  shows "fst (event_overlaps w start end) = Inr True"
proof -
  have "conflicts = filter (overlap_filter start end) (sort_key Start (Items w))"
    using q by (auto simp: query_overlap_eq split: if_splits)
  then obtain found where "scan_conflicts conflicts start end = Inr (Some found)"
    using scan_filtered_match [OF c f m] by blast
  with q show ?thesis
    by (simp add: event_overlaps_def)
qed

subsection \<open>The overlap detector\<close>

text \<open>
  Claim C4. When the overlap query returns and none of the intervals it returns
  satisfies the tolerant start-containment rule or the containment rule,
  \<open>event_overlaps\<close> returns \<open>False\<close>; in particular it returns \<open>False\<close> when the
  query returns no interval at all.
\<close>

theorem no_match_no_overlap:
  assumes "query_overlap w start end = (Inr conflicts, w')"
  shows "((\<forall>c\<in>set conflicts. \<forall>cs ce. Start c = Some cs \<longrightarrow> End c = Some ce \<longrightarrow>
             \<not> (cs - buffer \<le> start \<and> start \<le> ce + buffer) \<and> \<not> (cs \<le> start \<and> ce \<ge> end))
          \<longrightarrow> event_overlaps w start end = (Inr False, w'))
       \<and> (conflicts = [] \<longrightarrow> event_overlaps w start end = (Inr False, w'))"
proof -
  have general: "event_overlaps w start end = (Inr False, w')"
    if no: "\<forall>c\<in>set conflicts. \<forall>cs ce. Start c = Some cs \<longrightarrow> End c = Some ce \<longrightarrow>
              \<not> (cs - buffer \<le> start \<and> start \<le> ce + buffer) \<and> \<not> (cs \<le> start \<and> ce \<ge> end)"
  proof -
    have "\<exists>a b. Start c = Some a \<and> End c = Some b \<and> \<not> is_conflict a b start end"
      if c: "c \<in> set conflicts" for c
    proof -
      from c have "overlap_filter start end c"
        using query_overlap_Inr [OF assms] by simp
      then obtain a b where ab: "Start c = Some a" "End c = Some b"
        by (auto simp: overlap_filter_iff)
      with no c have "\<not> is_conflict a b start end"
        by (simp add: is_conflict_def)
      with ab show ?thesis by blast
    qed
    then have "scan_conflicts conflicts start end = Inr None"
      by (intro scan_conflicts_no_match ballI)
    with assms show ?thesis
      by (simp add: event_overlaps_def)
  qed
  moreover have "event_overlaps w start end = (Inr False, w')" if "conflicts = []"
    using that assms by (simp add: event_overlaps_def)
  ultimately show ?thesis by blast
qed

text \<open>
  A source event from 09:00 to 10:00 against a target that holds 09:05 to 09:15, and
  against an empty target.
\<close>

theorem no_match_no_overlap_witness:
  "query_overlap (target [appointment ''Break'' (clock 9 5) (clock 9 15)] []) (clock 9 0) (clock 10 0)
     = (Inr [appointment ''Break'' (clock 9 5) (clock 9 15)],
        target [appointment ''Break'' (clock 9 5) (clock 9 15)] [])
   \<and> event_overlaps (target [appointment ''Break'' (clock 9 5) (clock 9 15)] []) (clock 9 0) (clock 10 0)
     = (Inr False, target [appointment ''Break'' (clock 9 5) (clock 9 15)] [])
   \<and> query_overlap (target [] []) (clock 9 0) (clock 10 0) = (Inr [], target [] [])
   \<and> event_overlaps (target [] []) (clock 9 0) (clock 10 0) = (Inr False, target [] [])"
proof -
  let ?x = "appointment ''Break'' (clock 9 5) (clock 9 15)"
  have q1: "query_overlap (target [?x] []) (clock 9 0) (clock 10 0) = (Inr [?x], target [?x] [])"
    by (simp add: script_defs)
  have no: "\<forall>c\<in>set [?x]. \<forall>cs ce. Start c = Some cs \<longrightarrow> End c = Some ce \<longrightarrow>
              \<not> (cs - buffer \<le> clock 9 0 \<and> clock 9 0 \<le> ce + buffer)
              \<and> \<not> (cs \<le> clock 9 0 \<and> ce \<ge> clock 10 0)"
    by (simp add: script_defs)
  have q2: "query_overlap (target [] []) (clock 9 0) (clock 10 0) = (Inr [], target [] [])"
    by (simp add: script_defs)
  show ?thesis
    using q1 q2 no no_match_no_overlap [OF q1] no_match_no_overlap [OF q2] by blast
qed

text \<open>
  Claim C2, as stated, fails: \<open>event_overlaps\<close> scans only the items that pass the
  \<open>Restrict\<close> filter \<open>[Start] < end AND [End] > start\<close>, both bounds rendered to the
  minute. A target appointment from 09:00 to 10:00 satisfies the tolerant
  start-containment rule for a candidate from 10:00 to 11:00, but the filter drops it
  and the detector returns \<open>False\<close>.
\<close>

theorem back_to_back_not_detected:
  "(clock 9 0 - buffer \<le> clock 10 0 \<and> clock 10 0 \<le> clock 10 0 + buffer)
   \<and> fst (event_overlaps (target [appointment ''Standup'' (clock 9 0) (clock 10 0)] [])
            (clock 10 0) (clock 11 0)) = Inr False"
  by (simp add: script_defs)

text \<open>
  Claim C2, amended. For every candidate and every existing interval that the overlap
  query returns for it (the query succeeds, the interval starts before the candidate's
  end and ends after the candidate's start, both candidate bounds truncated to the
  minute): if \<open>existing.start - 1 minute \<le> candidate.start \<le> existing.end + 1 minute\<close>,
  both bounds inclusive, \<open>event_overlaps\<close> returns \<open>True\<close>.
\<close>

theorem tolerant_start_containment:
  assumes "query_overlap w start end = (Inr conflicts, w')"
    and "c \<in> set (Items w)" and "Start c = Some cs" and "End c = Some ce"
    and "cs < strftime end" and "strftime start < ce"
    and "cs - buffer \<le> start" and "start \<le> ce + buffer"
  shows "buffer = 60000000 \<and> fst (event_overlaps w start end) = Inr True"
proof -
  have "is_conflict cs ce start end"
    using assms(7,8) by (simp add: is_conflict_def)
  then show ?thesis
    using event_overlaps_match [OF assms(1-6)] buffer_value by simp
qed

text \<open>
  A source event from 09:00 to 10:00 against a target block that starts 30 seconds
  later.
\<close>

theorem tolerant_start_containment_witness:
  "query_overlap (target [appointment ''Busy'' (clock 9 0 + 30000000) (clock 10 0)] [])
       (clock 9 0) (clock 10 0)
     = (Inr [appointment ''Busy'' (clock 9 0 + 30000000) (clock 10 0)],
        target [appointment ''Busy'' (clock 9 0 + 30000000) (clock 10 0)] [])
   \<and> clock 9 0 + 30000000 - buffer \<le> clock 9 0 \<and> clock 9 0 \<le> clock 10 0 + buffer
   \<and> fst (event_overlaps (target [appointment ''Busy'' (clock 9 0 + 30000000) (clock 10 0)] [])
            (clock 9 0) (clock 10 0)) = Inr True"
proof -
  let ?x = "appointment ''Busy'' (clock 9 0 + 30000000) (clock 10 0)"
  have q: "query_overlap (target [?x] []) (clock 9 0) (clock 10 0) = (Inr [?x], target [?x] [])"
    by (simp add: script_defs)
  have h: "?x \<in> set (Items (target [?x] []))" "Start ?x = Some (clock 9 0 + 30000000)"
    "End ?x = Some (clock 10 0)" "clock 9 0 + 30000000 < strftime (clock 10 0)"
    "strftime (clock 9 0) < clock 10 0"
    "clock 9 0 + 30000000 - buffer \<le> clock 9 0" "clock 9 0 \<le> clock 10 0 + buffer"
    by (simp_all add: script_defs)
  show ?thesis
    using q h tolerant_start_containment [OF q h] by simp
qed

text \<open>
  Claim C3, as stated, fails for a zero-length candidate: a target appointment from
  09:00 to 10:00 contains the candidate from 09:00 to 09:00, but it does not start
  before 09:00, so the \<open>Restrict\<close> filter drops it and the detector returns \<open>False\<close>.
\<close>

theorem zero_length_candidate_not_detected:
  "(clock 9 0 \<le> clock 9 0 \<and> clock 10 0 \<ge> clock 9 0)
   \<and> fst (event_overlaps (target [appointment ''Workshop'' (clock 9 0) (clock 10 0)] [])
            (clock 9 0) (clock 9 0)) = Inr False"
  by (simp add: script_defs)

text \<open>
  Claim C3, amended. For every candidate and every existing interval that the overlap
  query returns for it (the query succeeds, the interval starts before the candidate's
  end and ends after the candidate's start, both candidate bounds truncated to the
  minute): if \<open>existing.start \<le> candidate.start\<close> and \<open>existing.end \<ge> candidate.end\<close>,
  \<open>event_overlaps\<close> returns \<open>True\<close>, however far the two starts are apart. A zero-length
  candidate goes through the same query and the same rules.
\<close>

theorem containment_rule:
  assumes "query_overlap w start end = (Inr conflicts, w')"
    and "c \<in> set (Items w)" and "Start c = Some cs" and "End c = Some ce"
    and "cs < strftime end" and "strftime start < ce"
    and "cs \<le> start" and "ce \<ge> end"
  shows "fst (event_overlaps w start end) = Inr True"
proof -
  have "is_conflict cs ce start end"
    using assms(7,8) by (simp add: is_conflict_def)
  then show ?thesis
    using event_overlaps_match [OF assms(1-6)] by simp
qed

text \<open>
  A source event from 09:00 to 10:00 inside a target block from 08:30 to 10:30, and a
  zero-length candidate at 09:00 inside the same block.
\<close>

theorem containment_rule_witness:
  "fst (event_overlaps (target [appointment ''Busy'' (clock 8 30) (clock 10 30)] [])
          (clock 9 0) (clock 10 0)) = Inr True
   \<and> fst (event_overlaps (target [appointment ''Busy'' (clock 8 30) (clock 10 30)] [])
          (clock 9 0) (clock 9 0)) = Inr True"
proof -
  let ?x = "appointment ''Busy'' (clock 8 30) (clock 10 30)"
  have q1: "query_overlap (target [?x] []) (clock 9 0) (clock 10 0) = (Inr [?x], target [?x] [])"
    by (simp add: script_defs)
  have h1: "?x \<in> set (Items (target [?x] []))" "Start ?x = Some (clock 8 30)"
    "End ?x = Some (clock 10 30)" "clock 8 30 < strftime (clock 10 0)"
    "strftime (clock 9 0) < clock 10 30" "clock 8 30 \<le> clock 9 0" "clock 10 30 \<ge> clock 10 0"
    by (simp_all add: script_defs)
  have q2: "query_overlap (target [?x] []) (clock 9 0) (clock 9 0) = (Inr [?x], target [?x] [])"
    by (simp add: script_defs)
  have h2: "?x \<in> set (Items (target [?x] []))" "Start ?x = Some (clock 8 30)"
    "End ?x = Some (clock 10 30)" "clock 8 30 < strftime (clock 9 0)"
    "strftime (clock 9 0) < clock 10 30" "clock 8 30 \<le> clock 9 0" "clock 10 30 \<ge> clock 9 0"
    by (simp_all add: script_defs)
  show ?thesis
    using containment_rule [OF q1 h1] containment_rule [OF q2 h2] by simp
qed

subsection \<open>Booking and one iteration of the main loop\<close>

lemma booking_terminal: "booking m \<Longrightarrow> terminal m"
  by (cases m) simp_all

lemma book_busy_time_returns: "fst (book_busy_time w event) = Inr ()"
  by (simp add: book_busy_time_def split: prod.splits sum.splits)

lemma book_busy_time_try_eq:
  "book_busy_time_try w event =
     (if take 1 (faults w) = [True] then (Inl com_error, tick w)
      else if Start event = None \<or> End event = None then (Inl com_error, tick w)
      else if take 1 (tl (faults w)) = [True] then (Inl com_error, tick (tick w))
      else (Inr (), print (BookedBusyTime (Start event) (End event))
                      ((tick (tick w))\<lparr>Items := Items w @ [busy_block event]\<rparr>)))"
  by (simp add: book_busy_time_try_def com_call_eq)

lemma book_busy_time_Items:
  "Items (snd (book_busy_time w event)) = Items w \<or>
   Items (snd (book_busy_time w event)) = Items w @ [busy_block event]"
  by (simp add: book_busy_time_def book_busy_time_try_eq)

lemma book_busy_time_stdout:
  "stdout (snd (book_busy_time w event)) = stdout w @ [BookedBusyTime (Start event) (End event)]
   \<or> stdout (snd (book_busy_time w event)) = stdout w @ [ErrorCreatingEvent com_error]"
  by (simp add: book_busy_time_def book_busy_time_try_eq)

lemma book_busy_time_uncaught: "uncaught (snd (book_busy_time w event)) = uncaught w"
  by (simp add: book_busy_time_def book_busy_time_try_eq)

text \<open>
  What \<open>book_busy_time\<close> does when something in its \<open>try\<close> block raises, and what it
  does otherwise.
\<close>

lemma book_busy_time_failed:
  assumes "take 1 (faults w) = [True] \<or> Start event = None \<or> End event = None
           \<or> take 1 (tl (faults w)) = [True]"
  shows "Items (snd (book_busy_time w event)) = Items w"
    and "stdout (snd (book_busy_time w event)) = stdout w @ [ErrorCreatingEvent com_error]"
  using assms by (auto simp: book_busy_time_def book_busy_time_try_eq)

lemma book_busy_time_succeeded:
  assumes "take 1 (faults w) \<noteq> [True]" "Start event \<noteq> None" "End event \<noteq> None"
    "take 1 (tl (faults w)) \<noteq> [True]"
  shows "Items (snd (book_busy_time w event)) = Items w @ [busy_block event]"
    and "stdout (snd (book_busy_time w event))
           = stdout w @ [BookedBusyTime (Start event) (End event)]"
    and "faults (snd (book_busy_time w event)) = tl (tl (faults w))"
  using assms by (auto simp: book_busy_time_def book_busy_time_try_eq)

lemma faults_two:
  assumes "True \<notin> set (take 2 fs)"
  shows "take 1 fs \<noteq> [True]" and "take 1 (tl fs) \<noteq> [True]" and "tl (tl fs) = drop 2 fs"
  using assms by (cases fs; cases "tl fs"; auto)+

lemma book_busy_time_ok:
  assumes "Start event \<noteq> None" "End event \<noteq> None" "True \<notin> set (take 2 (faults w))"
  shows "Items (snd (book_busy_time w event)) = Items w @ [busy_block event]"
    and "stdout (snd (book_busy_time w event))
           = stdout w @ [BookedBusyTime (Start event) (End event)]"
    and "faults (snd (book_busy_time w event)) = drop 2 (faults w)"
  using book_busy_time_succeeded [of w event] assms(1,2) faults_two [OF assms(3)]
  by simp_all

lemma except_clause_eq:
  "except_clause w event e =
     (if take 1 (faults w) = [True] then (tick w)\<lparr>uncaught := Some com_error\<rparr>
      else print (ErrorProcessing (Subject event) e) (tick w))"
  by (simp add: except_clause_def com_call_eq)

lemma except_clause_Items [simp]: "Items (except_clause w event e) = Items w"
  by (simp add: except_clause_eq)

lemma except_clause_faults [simp]: "faults (except_clause w event e) = tl (faults w)"
  by (simp add: except_clause_eq)

lemma except_clause_stdout:
  "stdout (except_clause w event e) =
     (if take 1 (faults w) = [True] then stdout w
      else stdout w @ [ErrorProcessing (Subject event) e])"
  by (simp add: except_clause_eq)

lemma except_clause_uncaught:
  "uncaught (except_clause w event e) =
     (if take 1 (faults w) = [True] then Some com_error else uncaught w)"
  by (simp add: except_clause_eq)

lemma process_event_eq:
  "process_event w event =
     (case Start event of
        None \<Rightarrow> except_clause w event AttributeError
      | Some s \<Rightarrow>
          (case End event of
             None \<Rightarrow> except_clause w event AttributeError
           | Some e \<Rightarrow>
               if take 1 (faults w) = [True]
               then except_clause (tick w) event com_error
               else
                 (case scan_conflicts
                         (filter (overlap_filter s e) (sort_key Start (Items w))) s e of
                    Inl x \<Rightarrow> except_clause (tick w) event x
                  | Inr None \<Rightarrow> snd (book_busy_time (tick w) event)
                  | Inr (Some found) \<Rightarrow>
                      print (ConflictExists (Start event) (End event))
                        (print found (tick w)))))"
  using book_busy_time_returns [of "tick w" event]
  by (auto simp: process_event_def process_try_def naive_def event_overlaps_def
        query_overlap_eq
      split: option.splits sum.splits prod.splits bool.splits)

lemma process_event_Items:
  "Items (process_event w event) = Items w \<or>
   Items (process_event w event) = Items w @ [busy_block event]"
  using book_busy_time_Items [of "tick w" event]
  by (auto simp: process_event_eq split: option.splits sum.splits)

text \<open>
  An iteration that is not ended by an uncaught exception prints exactly one terminal
  line.
\<close>

lemma process_event_stdout:
  assumes "uncaught (process_event w event) = None"
  shows "\<exists>ls. stdout (process_event w event) = stdout w @ ls \<and> length (filter terminal ls) = 1"
proof (cases "Start event")
  case None
  with assms show ?thesis
    by (simp add: process_event_eq except_clause_stdout except_clause_uncaught
        split: if_splits)
next
  case s: (Some s)
  show ?thesis
  proof (cases "End event")
    case None
    with s assms show ?thesis
      by (simp add: process_event_eq except_clause_stdout except_clause_uncaught
          split: if_splits)
  next
    case e: (Some e)
    show ?thesis
    proof (cases "take 1 (faults w) = [True]")
      case True
      with s e assms show ?thesis
        by (simp add: process_event_eq except_clause_stdout except_clause_uncaught
            split: if_splits)
    next
      case nf: False
      obtain r where r: "scan_conflicts
          (filter (overlap_filter s e) (sort_key Start (Items w))) s e = Inr r"
        using scan_filtered_readable by blast
      show ?thesis
      proof (cases r)
        case None
        have "\<exists>ls. stdout (snd (book_busy_time (tick w) event)) = stdout w @ ls
                \<and> length (filter terminal ls) = 1"
          using book_busy_time_stdout [of "tick w" event] by auto
        with s e nf r None show ?thesis
          by (simp add: process_event_eq)
      next
        case (Some found)
        then have "\<not> terminal found"
          using r scan_conflicts_line by blast
        with s e nf r Some show ?thesis
          by (simp add: process_event_eq)
      qed
    qed
  qed
qed

text \<open>An iteration that is ended by an uncaught exception changes neither the items nor the output.\<close>

lemma process_event_crash:
  assumes "uncaught w = None" "uncaught (process_event w event) \<noteq> None"
  shows "Items (process_event w event) = Items w \<and> stdout (process_event w event) = stdout w
         \<and> (\<exists>e. fst (process_try w event) = Inl e)"
proof -
  obtain r w' where t: "process_try w event = (r, w')"
    by (cases "process_try w event")
  show ?thesis
  proof (cases r)
    case (Inl e)
    have w': "Items w' = Items w \<and> stdout w' = stdout w"
      using t Inl
      by (auto simp: process_try_def naive_def event_overlaps_def query_overlap_eq
            book_busy_time_def
          split: option.splits sum.splits prod.splits bool.splits if_splits)
    have "take 1 (faults w') = [True]"
    proof (rule ccontr)
      assume "take 1 (faults w') \<noteq> [True]"
      then have "uncaught (process_event w event) = uncaught w'"
        using t Inl by (simp add: process_event_def except_clause_uncaught)
      moreover have "uncaught w' = uncaught w"
        using t Inl
        by (auto simp: process_try_def naive_def event_overlaps_def query_overlap_eq
              book_busy_time_def
            split: option.splits sum.splits prod.splits bool.splits if_splits)
      ultimately show False using assms by simp
    qed
    with t Inl w' show ?thesis
      by (simp add: process_event_def except_clause_stdout)
  next
    case (Inr u)
    have "uncaught w' = uncaught w"
      using t Inr book_busy_time_uncaught [of "tick w" event]
      by (auto simp: process_try_def naive_def event_overlaps_def query_overlap_eq
          split: option.splits sum.splits prod.splits bool.splits if_splits)
    with t Inr assms show ?thesis
      by (simp add: process_event_def)
  qed
qed

subsection \<open>The main loop\<close>

lemma process_events_uncaught [simp]:
  "uncaught w = Some x \<Longrightarrow> process_events w evs = w"
  by (cases evs) simp_all

lemma process_events_Cons:
  "uncaught w = None \<Longrightarrow> process_events w (event # rest) = process_events (process_event w event) rest"
  by simp

lemma process_events_append:
  "process_events w (xs @ ys) = process_events (process_events w xs) ys"
proof (induction xs arbitrary: w)
  case Nil
  then show ?case by simp
next
  case (Cons x xs)
  then show ?case by (cases "uncaught w") simp_all
qed

lemma process_events_started:
  "uncaught (process_events w evs) = None \<Longrightarrow> uncaught w = None"
  by (cases "uncaught w") simp_all

lemma process_events_terminal:
  assumes "uncaught (process_events w evs) = None"
  shows "length (filter terminal (stdout (process_events w evs)))
           = length (filter terminal (stdout w)) + length evs"
  using assms
proof (induction evs arbitrary: w)
  case Nil
  then show ?case by simp
next
  case (Cons event rest)
  have w: "uncaught w = None"
    using Cons.prems process_events_started by blast
  let ?w = "process_event w event"
  have run: "process_events w (event # rest) = process_events ?w rest"
    using w by simp
  then have rest: "uncaught (process_events ?w rest) = None"
    using Cons.prems by simp
  then have "uncaught ?w = None"
    using process_events_started by blast
  then obtain ls where "stdout ?w = stdout w @ ls" "length (filter terminal ls) = 1"
    using process_event_stdout by blast
  then have "length (filter terminal (stdout ?w)) = length (filter terminal (stdout w)) + 1"
    by simp
  with Cons.IH [OF rest] run show ?case by simp
qed

lemma process_events_Items_mono: "set (Items w) \<subseteq> set (Items (process_events w evs))"
proof (induction evs arbitrary: w)
  case Nil
  then show ?case by simp
next
  case (Cons event rest)
  show ?case
  proof (cases "uncaught w")
    case None
    have "set (Items w) \<subseteq> set (Items (process_event w event))"
      using process_event_Items [of w event] by auto
    with Cons [of "process_event w event"] None show ?thesis by auto
  next
    case (Some x)
    then show ?thesis by simp
  qed
qed

lemma scan_conflicts_no_completion:
  assumes "scan_conflicts cs s e = Inr (Some m)"
  shows "m \<noteq> SyncingComplete"
  using assms by (induction cs) (auto simp: naive_def split: option.splits if_splits)

lemma process_events_no_completion:
  "SyncingComplete \<notin> set (stdout w) \<Longrightarrow> SyncingComplete \<notin> set (stdout (process_events w evs))"
proof (induction evs arbitrary: w)
  case Nil
  then show ?case by simp
next
  case (Cons event rest)
  show ?case
  proof (cases "uncaught w")
    case None
    have "SyncingComplete \<notin> set (stdout (process_event w event))"
    proof (cases "uncaught (process_event w event)")
      case None
      then obtain ls where ls: "stdout (process_event w event) = stdout w @ ls"
          "length (filter terminal ls) = 1"
        using process_event_stdout by blast
      have "set ls \<subseteq> {m. m \<noteq> SyncingComplete}"
        using book_busy_time_stdout [of "tick w" event] ls(1)
        by (auto simp: process_event_eq except_clause_stdout
            dest: scan_conflicts_no_completion
            split: option.splits sum.splits if_splits)
      with ls(1) Cons.prems show ?thesis by auto
    next
      case (Some x)
      then have "stdout (process_event w event) = stdout w"
        using process_event_crash [of w event] \<open>uncaught w = None\<close> by simp
      with Cons.prems show ?thesis by simp
    qed
    with Cons.IH [of "process_event w event"] None show ?thesis by simp
  next
    case (Some x)
    with Cons.prems show ?thesis by simp
  qed
qed

subsection \<open>Events already covered on the target\<close>

lemma covered_mono: "covered its event \<Longrightarrow> set its \<subseteq> set its' \<Longrightarrow> covered its' event"
  by (auto simp: covered_def split: option.splits)

lemma covered_skipped:
  assumes "covered (Items w) event"
  shows "Items (process_event w event) = Items w
         \<and> (\<exists>ls. stdout (process_event w event) = stdout w @ ls \<and> (\<forall>m\<in>set ls. \<not> booking m))"
proof (cases "Start event")
  case None
  then show ?thesis by (simp add: process_event_eq except_clause_stdout)
next
  case s: (Some s)
  show ?thesis
  proof (cases "End event")
    case None
    with s show ?thesis by (simp add: process_event_eq except_clause_stdout)
  next
    case e: (Some e)
    from assms s e obtain c cs ce where "c \<in> set (Items w)" "Start c = Some cs"
        "End c = Some ce" "cs < strftime e" "strftime s < ce" "is_conflict cs ce s e"
      by (auto simp: covered_def)
    then obtain m where m:
      "scan_conflicts (filter (overlap_filter s e) (sort_key Start (Items w))) s e = Inr (Some m)"
      using scan_filtered_match by blast
    then have "\<not> booking m"
      using scan_conflicts_line booking_terminal by blast
    with s e m show ?thesis
      by (simp add: process_event_eq except_clause_stdout)
  qed
qed

lemma process_events_covered:
  assumes "\<forall>event\<in>set evs. covered (Items w) event"
  shows "Items (process_events w evs) = Items w
         \<and> (\<exists>ls. stdout (process_events w evs) = stdout w @ ls \<and> (\<forall>m\<in>set ls. \<not> booking m))"
  using assms
proof (induction evs arbitrary: w)
  case Nil
  then show ?case by simp
next
  case (Cons event rest)
  show ?case
  proof (cases "uncaught w")
    case (Some x)
    then show ?thesis by simp
  next
    case None
    let ?w = "process_event w event"
    have it: "Items ?w = Items w"
      using covered_skipped [of w event] Cons.prems by simp
    obtain l1 where l1: "stdout ?w = stdout w @ l1" "\<forall>m\<in>set l1. \<not> booking m"
      using covered_skipped [of w event] Cons.prems by auto
    obtain l2 where l2: "Items (process_events ?w rest) = Items ?w"
        "stdout (process_events ?w rest) = stdout ?w @ l2" "\<forall>m\<in>set l2. \<not> booking m"
      using Cons.IH [of ?w] Cons.prems it by auto
    have "stdout (process_events w (event # rest)) = stdout w @ (l1 @ l2)"
      using None l1(1) l2(2) by simp
    moreover have "\<forall>m\<in>set (l1 @ l2). \<not> booking m"
      using l1(2) l2(3) by auto
    moreover have "Items (process_events w (event # rest)) = Items w"
      using None it l2(1) by simp
    ultimately show ?thesis by blast
  qed
qed

lemma busy_block_covers:
  assumes "Start event = Some s" "End event = Some e" "s < strftime e"
  shows "covered (its @ [busy_block event]) event"
proof -
  have "strftime s \<le> s" "strftime e \<le> e"
    by (simp_all add: strftime_le)
  with assms(3) have "strftime s < e" "s - buffer \<le> s" "s \<le> e + buffer"
    by (simp_all add: buffer_value)
  with assms show ?thesis
    by (auto simp: covered_def busy_block_def is_conflict_def)
qed

lemma fault_free_step:
  assumes ff: "True \<notin> set (faults w)"
    and wf: "\<forall>s e. Start event = Some s \<longrightarrow> End event = Some e \<longrightarrow> s < strftime e"
  shows "covered (Items (process_event w event)) event
         \<and> True \<notin> set (faults (process_event w event))
         \<and> uncaught (process_event w event) = uncaught w"
proof -
  have nf: "take 1 (faults w) \<noteq> [True]" "True \<notin> set (tl (faults w))"
    using ff by (cases "faults w"; auto)+
  show ?thesis
  proof (cases "Start event")
    case None
    with nf show ?thesis
      by (simp add: process_event_eq covered_def except_clause_uncaught)
  next
    case s: (Some s)
    show ?thesis
    proof (cases "End event")
      case None
      with s nf show ?thesis
        by (simp add: process_event_eq covered_def except_clause_uncaught)
    next
      case e: (Some e)
      obtain r where r: "scan_conflicts
          (filter (overlap_filter s e) (sort_key Start (Items w))) s e = Inr r"
        using scan_filtered_readable by blast
      show ?thesis
      proof (cases r)
        case None
        have two: "True \<notin> set (take 2 (faults (tick w)))"
          using nf(2) by (auto dest: in_set_takeD)
        have bk: "Items (snd (book_busy_time (tick w) event)) = Items w @ [busy_block event]"
          "faults (snd (book_busy_time (tick w) event)) = drop 2 (faults (tick w))"
          using book_busy_time_ok [of event "tick w"] s e two by simp_all
        have "True \<notin> set (drop 2 (faults (tick w)))"
          using nf(2) by (auto dest: in_set_dropD)
        moreover have "covered (Items w @ [busy_block event]) event"
          using busy_block_covers s e wf by blast
        ultimately show ?thesis
          using s e nf r None bk book_busy_time_uncaught [of "tick w" event]
          by (simp add: process_event_eq)
      next
        case (Some m)
        have "\<exists>c\<in>set (Items w). \<exists>cs ce. Start c = Some cs \<and> End c = Some ce \<and>
                cs < strftime e \<and> strftime s < ce \<and> is_conflict cs ce s e"
        proof (rule ccontr)
          assume "\<not> ?thesis"
          then have "\<forall>c\<in>set (filter (overlap_filter s e) (sort_key Start (Items w))).
                       \<exists>a b. Start c = Some a \<and> End c = Some b \<and> \<not> is_conflict a b s e"
            by (auto simp: overlap_filter_iff)
          then have "scan_conflicts
              (filter (overlap_filter s e) (sort_key Start (Items w))) s e = Inr None"
            by (rule scan_conflicts_no_match)
          with r Some show False by simp
        qed
        then have "covered (Items w) event"
          using s e by (simp add: covered_def)
        with s e nf r Some show ?thesis
          by (simp add: process_event_eq)
      qed
    qed
  qed
qed

lemma first_run_covers:
  assumes "True \<notin> set (faults w)" and "uncaught w = None"
    and "\<forall>event\<in>set evs. \<forall>s e. Start event = Some s \<longrightarrow> End event = Some e \<longrightarrow> s < strftime e"
  shows "\<forall>event\<in>set evs. covered (Items (process_events w evs)) event"
  using assms
proof (induction evs arbitrary: w)
  case Nil
  then show ?case by simp
next
  case (Cons event rest)
  let ?w = "process_event w event"
  have step: "covered (Items ?w) event" "True \<notin> set (faults ?w)" "uncaught ?w = None"
    using fault_free_step [of w event] Cons.prems by auto
  have run: "process_events w (event # rest) = process_events ?w rest"
    using Cons.prems(2) by simp
  have "covered (Items (process_events ?w rest)) event"
    using covered_mono [OF step(1) process_events_Items_mono] .
  moreover have "\<forall>ev\<in>set rest. covered (Items (process_events ?w rest)) ev"
    using Cons.IH [OF step(2,3)] Cons.prems(3) by simp
  ultimately show ?case
    by (simp only: run) simp
qed

lemma get_events_subset: "set (get_events folder s e) \<subseteq> set folder"
  by (auto simp: get_events_def)

subsection \<open>The script as a whole\<close>

lemma sync_eq:
  "sync source_calendar target_calendar now fs =
     (if take 1 fs = [True]
      then \<lparr>Items = target_calendar, faults = tl fs, stdout = [], uncaught = Some com_error\<rparr>
      else
        (let w = process_events
                   \<lparr>Items = target_calendar, faults = tl fs, stdout = [], uncaught = None\<rparr>
                   (get_events source_calendar (START_DATE now) (END_DATE now))
         in if uncaught w = None then print SyncingComplete w else w))"
  by (auto simp: sync_def get_events_call_def com_call_eq tick_def Let_def split: option.splits)

lemma main_source_missing:
  assumes "snd (get_calendar namespace SOURCE_ACCOUNT CALENDAR_NAME) = None"
  shows "main namespace now fs =
           \<lparr>exit_status = 0,
            console = Syncing SOURCE_ACCOUNT TARGET_ACCOUNT CALENDAR_NAME
                      # fst (get_calendar namespace SOURCE_ACCOUNT CALENDAR_NAME)
                      @ fst (get_calendar namespace TARGET_ACCOUNT CALENDAR_NAME)
                      @ [SourceNotFound SOURCE_ACCOUNT],
            target_items = snd (get_calendar namespace TARGET_ACCOUNT CALENDAR_NAME)\<rparr>"
  using assms
  by (cases "get_calendar namespace SOURCE_ACCOUNT CALENDAR_NAME";
      cases "get_calendar namespace TARGET_ACCOUNT CALENDAR_NAME")
     (simp add: main_def)

lemma main_target_missing:
  assumes "snd (get_calendar namespace SOURCE_ACCOUNT CALENDAR_NAME) = Some src"
    and "snd (get_calendar namespace TARGET_ACCOUNT CALENDAR_NAME) = None"
  shows "main namespace now fs =
           \<lparr>exit_status = 0,
            console = Syncing SOURCE_ACCOUNT TARGET_ACCOUNT CALENDAR_NAME
                      # fst (get_calendar namespace SOURCE_ACCOUNT CALENDAR_NAME)
                      @ fst (get_calendar namespace TARGET_ACCOUNT CALENDAR_NAME)
                      @ [TargetNotFound TARGET_ACCOUNT],
            target_items = None\<rparr>"
  using assms
  by (cases "get_calendar namespace SOURCE_ACCOUNT CALENDAR_NAME";
      cases "get_calendar namespace TARGET_ACCOUNT CALENDAR_NAME")
     (simp add: main_def)

lemma main_synced:
  assumes "snd (get_calendar namespace SOURCE_ACCOUNT CALENDAR_NAME) = Some src"
    and "snd (get_calendar namespace TARGET_ACCOUNT CALENDAR_NAME) = Some tgt"
  shows "main namespace now fs =
           \<lparr>exit_status = (case uncaught (sync src tgt now fs) of None \<Rightarrow> 0 | Some e \<Rightarrow> 1),
            console = Syncing SOURCE_ACCOUNT TARGET_ACCOUNT CALENDAR_NAME
                      # fst (get_calendar namespace SOURCE_ACCOUNT CALENDAR_NAME)
                      @ fst (get_calendar namespace TARGET_ACCOUNT CALENDAR_NAME)
                      @ stdout (sync src tgt now fs),
            target_items = Some (Items (sync src tgt now fs))\<rparr>"
  using assms
  by (cases "get_calendar namespace SOURCE_ACCOUNT CALENDAR_NAME";
      cases "get_calendar namespace TARGET_ACCOUNT CALENDAR_NAME")
     (simp add: main_def Let_def)

lemma get_calendar_startup: "\<forall>m\<in>set (fst (get_calendar namespace a c)). startup m"
  by (induction namespace) (auto split: option.splits prod.splits)

subsection \<open>A second run\<close>

text \<open>
  Claim C1, as stated, fails for a zero-length source event. The block booked for an
  event from 09:00 to 09:00 does not pass the overlap query of the second run
  (\<open>[Start] < 09:00 AND [End] > 09:00\<close>), so the second run books the event again.
\<close>

theorem zero_length_event_booked_again:
  "Items (sync [appointment ''Reminder'' (clock 9 0) (clock 9 0)] [] (clock 8 0) [])
     = [busy_block (appointment ''Reminder'' (clock 9 0) (clock 9 0))]
   \<and> Items (sync [appointment ''Reminder'' (clock 9 0) (clock 9 0)]
              (Items (sync [appointment ''Reminder'' (clock 9 0) (clock 9 0)] [] (clock 8 0) []))
              (clock 8 0) [])
     = [busy_block (appointment ''Reminder'' (clock 9 0) (clock 9 0)),
        busy_block (appointment ''Reminder'' (clock 9 0) (clock 9 0))]"
  by (simp add: script_defs)

text \<open>
  Claim C1, amended. Let every source event whose start and end can be read start
  before the minute in which it ends (\<open>start < end\<close> truncated to the minute; such an
  event is not zero-length), and let no backend call fail during the first run. Then a
  second run over the same source calendar and the same window, against the target as
  the first run left it, creates no busy block and attempts no booking, whatever
  fails during it: every event booked on the first run is found by the overlap query
  and skipped.
\<close>

theorem second_run_books_nothing:
  assumes "\<forall>event\<in>set source_calendar. \<forall>s e.
             Start event = Some s \<longrightarrow> End event = Some e \<longrightarrow> s < strftime e"
    and "True \<notin> set fs1"
  shows "Items (sync source_calendar (Items (sync source_calendar target_calendar now fs1)) now fs2)
           = Items (sync source_calendar target_calendar now fs1)
         \<and> (\<forall>m\<in>set (stdout (sync source_calendar
                (Items (sync source_calendar target_calendar now fs1)) now fs2)). \<not> booking m)"
proof -
  let ?evs = "get_events source_calendar (START_DATE now) (END_DATE now)"
  let ?w1 = "process_events
               \<lparr>Items = target_calendar, faults = tl fs1, stdout = [], uncaught = None\<rparr> ?evs"
  let ?w2 = "\<lparr>Items = Items ?w1, faults = tl fs2, stdout = [], uncaught = None\<rparr>"
  have ff: "take 1 fs1 \<noteq> [True]" "True \<notin> set (tl fs1)"
    using assms(2) by (cases fs1; auto)+
  have run1: "Items (sync source_calendar target_calendar now fs1) = Items ?w1"
    using ff(1) by (simp add: sync_eq Let_def)
  have wf: "\<forall>event\<in>set ?evs. \<forall>s e.
              Start event = Some s \<longrightarrow> End event = Some e \<longrightarrow> s < strftime e"
    using assms(1) get_events_subset by blast
  have "\<forall>event\<in>set ?evs. covered (Items ?w1) event"
    by (rule first_run_covers) (use ff(2) wf in simp_all)
  then have cov: "\<forall>event\<in>set ?evs. covered (Items ?w2) event"
    by simp
  obtain ls where run2: "Items (process_events ?w2 ?evs) = Items ?w2"
      "stdout (process_events ?w2 ?evs) = stdout ?w2 @ ls" "\<forall>m\<in>set ls. \<not> booking m"
    using process_events_covered [OF cov] by blast
  have "Items (sync source_calendar (Items ?w1) now fs2) = Items ?w1
        \<and> (\<forall>m\<in>set (stdout (sync source_calendar (Items ?w1) now fs2)). \<not> booking m)"
    using run2 by (auto simp: sync_eq Let_def)
  then show ?thesis
    unfolding run1 .
qed

text \<open>
  Two source events from 09:00 to 10:00 and from 09:30 to 11:00, an empty target: the
  first run books the first event and skips the second, the second run books nothing.
\<close>

theorem second_run_books_nothing_witness:
  "Items (sync [appointment ''Review'' (clock 9 0) (clock 10 0),
                appointment ''Call'' (clock 9 30) (clock 11 0)] [] (clock 8 0) [])
     = [busy_block (appointment ''Review'' (clock 9 0) (clock 10 0))]
   \<and> Items (sync [appointment ''Review'' (clock 9 0) (clock 10 0),
                   appointment ''Call'' (clock 9 30) (clock 11 0)]
              (Items (sync [appointment ''Review'' (clock 9 0) (clock 10 0),
                            appointment ''Call'' (clock 9 30) (clock 11 0)] [] (clock 8 0) []))
              (clock 8 0) [])
     = [busy_block (appointment ''Review'' (clock 9 0) (clock 10 0))]"
proof -
  let ?src = "[appointment ''Review'' (clock 9 0) (clock 10 0),
               appointment ''Call'' (clock 9 30) (clock 11 0)]"
  have wf: "\<forall>event\<in>set ?src. \<forall>s e.
              Start event = Some s \<longrightarrow> End event = Some e \<longrightarrow> s < strftime e"
    by (simp add: script_defs)
  have ff: "True \<notin> set []"
    by simp
  have run1: "Items (sync ?src [] (clock 8 0) [])
                = [busy_block (appointment ''Review'' (clock 9 0) (clock 10 0))]"
    by (simp add: script_defs)
  show ?thesis
    using run1 second_run_books_nothing [OF wf ff, of "[]" "clock 8 0" "[]"] by simp
qed

subsection \<open>Failures while processing an event\<close>

text \<open>
  Claim C5 does not hold of the script. The \<open>except\<close> clause of the main loop builds
  its message from \<open>event.Subject\<close>, read outside any \<open>try\<close> (line 116). When the
  processing of an event raises and that read raises as well, the exception is
  uncaught: the loop is left, the events after it are never processed, the line
  \<open>Syncing complete.\<close> is not printed and the exit status is 1.

  The source calendar holds A (09:00 to 10:00) and B (11:00 to 12:00), the target is
  empty. The fetch succeeds and the overlap query for A raises. In the first run the
  read of the subject raises too, and nothing is done for B; in the second run it
  succeeds, and B is booked. The last equation is the same failure for an event whose
  start cannot be read.
\<close>

theorem failed_error_report_ends_run:
  "main [\<lparr>Name = SOURCE_ACCOUNT,
          Folders = [(CALENDAR_NAME, [appointment ''A'' (clock 9 0) (clock 10 0),
                                      appointment ''B'' (clock 11 0) (clock 12 0)])]\<rparr>,
         \<lparr>Name = TARGET_ACCOUNT, Folders = [(CALENDAR_NAME, [])]\<rparr>]
        (clock 8 0) [False, True, True]
     = \<lparr>exit_status = 1,
        console = [Syncing SOURCE_ACCOUNT TARGET_ACCOUNT CALENDAR_NAME],
        target_items = Some []\<rparr>
   \<and> main [\<lparr>Name = SOURCE_ACCOUNT,
            Folders = [(CALENDAR_NAME, [appointment ''A'' (clock 9 0) (clock 10 0),
                                        appointment ''B'' (clock 11 0) (clock 12 0)])]\<rparr>,
           \<lparr>Name = TARGET_ACCOUNT, Folders = [(CALENDAR_NAME, [])]\<rparr>]
          (clock 8 0) [False, True, False]
     = \<lparr>exit_status = 0,
        console = [Syncing SOURCE_ACCOUNT TARGET_ACCOUNT CALENDAR_NAME,
                   ErrorProcessing ''A'' com_error,
                   BookedBusyTime (Some (clock 11 0)) (Some (clock 12 0)),
                   SyncingComplete],
        target_items = Some [busy_block (appointment ''B'' (clock 11 0) (clock 12 0))]\<rparr>
   \<and> process_events (target [] [True])
        [(appointment ''A'' (clock 9 0) (clock 10 0))\<lparr>Start := None\<rparr>,
         appointment ''B'' (clock 11 0) (clock 12 0)]
     = \<lparr>Items = [], faults = [], stdout = [], uncaught = Some com_error\<rparr>"
  by (simp add: main_def Let_def SOURCE_ACCOUNT_def TARGET_ACCOUNT_def CALENDAR_NAME_def
      script_defs)

subsection \<open>The busy block\<close>

text \<open>
  Claim C8. Processing a source event either leaves the target calendar as it is or
  appends exactly one block, whose subject is \<open>Busy\<close>, whose start and end are those
  of the source event, whose location is \<open>Reserved by Automation\<close>, whose busy status
  is 2 (\<open>olBusy\<close>) and whose body names the subject of the source event. The block is
  appended whenever the event is decided Book (start and end readable, the detector
  returns \<open>False\<close>) and neither \<open>Items.Add\<close> nor \<open>Save\<close> fails.
\<close>

theorem busy_block_construction:
  "(Items (process_event w event) = Items w
    \<or> Items (process_event w event) = Items w @
         [\<lparr>Subject = ''Busy'', Start = Start event, End = End event,
           Location = ''Reserved by Automation'', BusyStatus = 2,
           Body = ''Blocked due to event: '' @ Subject event\<rparr>])
   \<and> (Start event = Some s \<and> End event = Some e
        \<and> event_overlaps w s e = (Inr False, w') \<and> True \<notin> set (take 2 (faults w'))
      \<longrightarrow> Items (process_event w event) = Items w @
         [\<lparr>Subject = ''Busy'', Start = Some s, End = Some e,
           Location = ''Reserved by Automation'', BusyStatus = 2,
           Body = ''Blocked due to event: '' @ Subject event\<rparr>])"
proof -
  have "Items (process_event w event) = Items w @ [busy_block event]"
    if h: "Start event = Some s" "End event = Some e"
      "event_overlaps w s e = (Inr False, w')" "True \<notin> set (take 2 (faults w'))"
  proof -
    have "Items w' = Items w"
      using h(3) by (auto simp: event_overlaps_def query_overlap_eq
          split: if_splits sum.splits option.splits)
    moreover obtain u w'' where bk: "book_busy_time w' event = (u, w'')"
      by (cases "book_busy_time w' event")
    moreover have "u = Inr ()"
      using book_busy_time_returns [of w' event] bk by simp
    moreover have "Items w'' = Items w' @ [busy_block event]"
      using book_busy_time_ok(1) [of event w'] h bk by simp
    ultimately show ?thesis
      using h(1-3) by (simp add: process_event_def process_try_def naive_def)
  qed
  then show ?thesis
    using process_event_Items [of w event] by (auto simp: busy_block_def)
qed

text \<open>A source event from 09:00 to 10:00 and an empty target calendar.\<close>

theorem busy_block_construction_witness:
  "Start (appointment ''Design review'' (clock 9 0) (clock 10 0)) = Some (clock 9 0)
   \<and> End (appointment ''Design review'' (clock 9 0) (clock 10 0)) = Some (clock 10 0)
   \<and> event_overlaps (target [] []) (clock 9 0) (clock 10 0) = (Inr False, target [] [])
   \<and> True \<notin> set (take 2 (faults (target [] [])))
   \<and> Items (process_event (target [] []) (appointment ''Design review'' (clock 9 0) (clock 10 0)))
     = [\<lparr>Subject = ''Busy'', Start = Some (clock 9 0), End = Some (clock 10 0),
         Location = ''Reserved by Automation'', BusyStatus = 2,
         Body = ''Blocked due to event: Design review''\<rparr>]"
proof -
  let ?ev = "appointment ''Design review'' (clock 9 0) (clock 10 0)"
  have h: "Start ?ev = Some (clock 9 0) \<and> End ?ev = Some (clock 10 0)
           \<and> event_overlaps (target [] []) (clock 9 0) (clock 10 0) = (Inr False, target [] [])
           \<and> True \<notin> set (take 2 (faults (target [] [])))"
    by (simp add: script_defs)
  have "Items (target [] []) = []" "Subject ?ev = ''Design review''"
    by (simp_all add: target_def appointment_def)
  then show ?thesis
    using h busy_block_construction
      [of "target [] []" ?ev "clock 9 0" "clock 10 0" "target [] []"]
    by simp
qed

subsection \<open>Booking failures\<close>

text \<open>
  Claim C10. \<open>book_busy_time\<close> never propagates an exception: on every input it returns
  normally and leaves no exception uncaught. If anything in its \<open>try\<close> block raises
  (\<open>Items.Add\<close>, the copy of a start or end that cannot be read, \<open>Save\<close>), no block is
  created and the error line is printed; otherwise the block is appended and the
  booking line is printed. For an event decided Book the loop body returns normally
  with the state that \<open>book_busy_time\<close> returned, so the \<open>except\<close> clause of the main
  loop is not entered and the loop goes on with the remaining events, after a failed
  booking as after a successful one. The line \<open>Syncing complete.\<close> is printed exactly
  when no exception was left uncaught, which no booking failure causes.
\<close>

theorem booking_failures_swallowed:
  "fst (book_busy_time w event) = Inr ()
   \<and> uncaught (snd (book_busy_time w event)) = uncaught w
   \<and> (take 1 (faults w) = [True] \<or> Start event = None \<or> End event = None
        \<or> take 1 (tl (faults w)) = [True]
      \<longrightarrow> Items (snd (book_busy_time w event)) = Items w
          \<and> stdout (snd (book_busy_time w event)) = stdout w @ [ErrorCreatingEvent com_error])
   \<and> (take 1 (faults w) \<noteq> [True] \<and> Start event \<noteq> None \<and> End event \<noteq> None
        \<and> take 1 (tl (faults w)) \<noteq> [True]
      \<longrightarrow> Items (snd (book_busy_time w event)) = Items w @ [busy_block event]
          \<and> stdout (snd (book_busy_time w event))
              = stdout w @ [BookedBusyTime (Start event) (End event)])
   \<and> (Start event = Some s \<and> End event = Some e \<and> event_overlaps w0 s e = (Inr False, w)
      \<longrightarrow> process_try w0 event = (Inr (), snd (book_busy_time w event))
          \<and> process_event w0 event = snd (book_busy_time w event)
          \<and> (uncaught w0 = None \<longrightarrow>
               process_events w0 (event # rest)
                 = process_events (snd (book_busy_time w event)) rest))
   \<and> (uncaught (sync source_calendar target_calendar now fs) = None
        \<longleftrightarrow> SyncingComplete \<in> set (stdout (sync source_calendar target_calendar now fs)))"
proof -
  have loop: "process_try w0 event = (Inr (), snd (book_busy_time w event))
          \<and> process_event w0 event = snd (book_busy_time w event)
          \<and> (uncaught w0 = None \<longrightarrow>
               process_events w0 (event # rest)
                 = process_events (snd (book_busy_time w event)) rest)"
    if h: "Start event = Some s" "End event = Some e" "event_overlaps w0 s e = (Inr False, w)"
  proof -
    have "book_busy_time w event = (Inr (), snd (book_busy_time w event))"
      using book_busy_time_returns [of w event] by (cases "book_busy_time w event") simp
    then have t: "process_try w0 event = (Inr (), snd (book_busy_time w event))"
      using h by (simp add: process_try_def naive_def)
    then have "process_event w0 event = snd (book_busy_time w event)"
      by (simp add: process_event_def)
    with t show ?thesis by simp
  qed
  let ?start = "\<lparr>Items = target_calendar, faults = tl fs, stdout = [], uncaught = None\<rparr>"
  let ?evs = "get_events source_calendar (START_DATE now) (END_DATE now)"
  have "SyncingComplete \<notin> set (stdout (process_events ?start ?evs))"
    by (rule process_events_no_completion) simp
  then have final: "uncaught (sync source_calendar target_calendar now fs) = None
        \<longleftrightarrow> SyncingComplete \<in> set (stdout (sync source_calendar target_calendar now fs))"
    by (auto simp: sync_eq Let_def)
  show ?thesis
    using book_busy_time_returns [of w event] book_busy_time_uncaught [of w event]
      book_busy_time_failed [of w event] book_busy_time_succeeded(1,2) [of w event]
      loop final
    by blast
qed

text \<open>
  One source event from 09:00 to 10:00 followed by one from 11:00 to 12:00, an empty
  target calendar. \<open>Save\<close> fails for the first event (the fourth backend call of the
  run): the error is printed, no block is created for it, the second event is booked
  and the run completes.
\<close>

theorem booking_failures_swallowed_witness:
  "event_overlaps (target [] [False, False, True]) (clock 9 0) (clock 10 0)
     = (Inr False, target [] [False, True])
   \<and> take 1 (tl (faults (target [] [False, True]))) = [True]
   \<and> Items (snd (book_busy_time (target [] [False, True])
                   (appointment ''Demo'' (clock 9 0) (clock 10 0)))) = []
   \<and> stdout (snd (book_busy_time (target [] [False, True])
                    (appointment ''Demo'' (clock 9 0) (clock 10 0))))
       = [ErrorCreatingEvent com_error]
   \<and> process_events (target [] [False, False, True])
        [appointment ''Demo'' (clock 9 0) (clock 10 0),
         appointment ''Retro'' (clock 11 0) (clock 12 0)]
     = \<lparr>Items = [busy_block (appointment ''Retro'' (clock 11 0) (clock 12 0))],
        faults = [],
        stdout = [ErrorCreatingEvent com_error,
                  BookedBusyTime (Some (clock 11 0)) (Some (clock 12 0))],
        uncaught = None\<rparr>
   \<and> stdout (sync [appointment ''Demo'' (clock 9 0) (clock 10 0),
                   appointment ''Retro'' (clock 11 0) (clock 12 0)] [] (clock 8 0)
               [False, False, False, True])
     = [ErrorCreatingEvent com_error,
        BookedBusyTime (Some (clock 11 0)) (Some (clock 12 0)), SyncingComplete]
   \<and> uncaught (sync [appointment ''Demo'' (clock 9 0) (clock 10 0),
                     appointment ''Retro'' (clock 11 0) (clock 12 0)] [] (clock 8 0)
                 [False, False, False, True]) = None"
proof -
  let ?ev = "appointment ''Demo'' (clock 9 0) (clock 10 0)"
  let ?rest = "[appointment ''Retro'' (clock 11 0) (clock 12 0)]"
  let ?src = "[?ev, appointment ''Retro'' (clock 11 0) (clock 12 0)]"
  have ov: "event_overlaps (target [] [False, False, True]) (clock 9 0) (clock 10 0)
              = (Inr False, target [] [False, True])"
    by (simp add: script_defs)
  have se: "Start ?ev = Some (clock 9 0)" "End ?ev = Some (clock 10 0)"
    by (simp_all add: appointment_def)
  have failed: "take 1 (tl (faults (target [] [False, True]))) = [True]"
    by (simp add: target_def)
  have start: "uncaught (target [] [False, False, True]) = None"
    "Items (target [] [False, True]) = []" "stdout (target [] [False, True]) = []"
    by (simp_all add: target_def)
  have after: "process_events
                 (snd (book_busy_time (target [] [False, True]) ?ev)) ?rest
     = \<lparr>Items = [busy_block (appointment ''Retro'' (clock 11 0) (clock 12 0))],
        faults = [],
        stdout = [ErrorCreatingEvent com_error,
                  BookedBusyTime (Some (clock 11 0)) (Some (clock 12 0))],
        uncaught = None\<rparr>"
    by (simp add: script_defs)
  have out: "stdout (sync ?src [] (clock 8 0) [False, False, False, True])
     = [ErrorCreatingEvent com_error,
        BookedBusyTime (Some (clock 11 0)) (Some (clock 12 0)), SyncingComplete]"
    by (simp add: script_defs)
  show ?thesis
    using ov se failed start after out
      booking_failures_swallowed [of "target [] [False, True]" ?ev "clock 9 0" "clock 10 0"
        "target [] [False, False, True]" ?rest ?src "[]" "clock 8 0"
        "[False, False, False, True]"]
    by simp
qed

subsection \<open>Startup\<close>

text \<open>
  Claim C6, as stated, fails on the exit status: the script leaves through \<open>exit()\<close>
  without an argument, so an unresolved calendar ends the process with status 0. Here
  only the target account exists.
\<close>

theorem unresolved_calendar_exit_status_zero:
  "snd (get_calendar [\<lparr>Name = TARGET_ACCOUNT, Folders = [(CALENDAR_NAME, [])]\<rparr>]
          SOURCE_ACCOUNT CALENDAR_NAME) = None
   \<and> exit_status (main [\<lparr>Name = TARGET_ACCOUNT, Folders = [(CALENDAR_NAME, [])]\<rparr>]
                    (clock 8 0) []) = 0"
  by (simp add: main_def SOURCE_ACCOUNT_def TARGET_ACCOUNT_def CALENDAR_NAME_def)

text \<open>
  Claim C6, amended. If the source or the target calendar cannot be resolved, the run
  stops before any event is fetched or processed: it prints only startup lines, the
  last of them the not-found message, the target calendar is left as it was found, and
  the process exits through \<open>exit()\<close>, that is with exit status 0.
\<close>

theorem startup_abort:
  assumes "snd (get_calendar namespace SOURCE_ACCOUNT CALENDAR_NAME) = None
           \<or> snd (get_calendar namespace TARGET_ACCOUNT CALENDAR_NAME) = None"
  shows "exit_status (main namespace now fs) = 0
         \<and> (\<forall>m\<in>set (console (main namespace now fs)). startup m)
         \<and> (last (console (main namespace now fs)) = SourceNotFound SOURCE_ACCOUNT
            \<or> last (console (main namespace now fs)) = TargetNotFound TARGET_ACCOUNT)
         \<and> target_items (main namespace now fs)
             = snd (get_calendar namespace TARGET_ACCOUNT CALENDAR_NAME)"
proof (cases "snd (get_calendar namespace SOURCE_ACCOUNT CALENDAR_NAME)")
  case None
  show ?thesis
    using get_calendar_startup [of namespace SOURCE_ACCOUNT CALENDAR_NAME]
      get_calendar_startup [of namespace TARGET_ACCOUNT CALENDAR_NAME]
    by (auto simp: main_source_missing [OF None])
next
  case (Some src)
  with assms have t: "snd (get_calendar namespace TARGET_ACCOUNT CALENDAR_NAME) = None"
    by simp
  show ?thesis
    using get_calendar_startup [of namespace SOURCE_ACCOUNT CALENDAR_NAME]
      get_calendar_startup [of namespace TARGET_ACCOUNT CALENDAR_NAME] t
    by (auto simp: main_target_missing [OF Some t])
qed

text \<open>
  The source account exists but has no folder named \<open>Calendar\<close>; the target calendar
  holds one appointment.
\<close>

theorem startup_abort_witness:
  "snd (get_calendar
          [\<lparr>Name = SOURCE_ACCOUNT, Folders = [(''Inbox'', [])]\<rparr>,
           \<lparr>Name = TARGET_ACCOUNT,
            Folders = [(CALENDAR_NAME, [appointment ''Dentist'' (clock 9 0) (clock 10 0)])]\<rparr>]
          SOURCE_ACCOUNT CALENDAR_NAME) = None
   \<and> main [\<lparr>Name = SOURCE_ACCOUNT, Folders = [(''Inbox'', [])]\<rparr>,
            \<lparr>Name = TARGET_ACCOUNT,
             Folders = [(CALENDAR_NAME, [appointment ''Dentist'' (clock 9 0) (clock 10 0)])]\<rparr>]
           (clock 8 0) []
     = \<lparr>exit_status = 0,
        console = [Syncing SOURCE_ACCOUNT TARGET_ACCOUNT CALENDAR_NAME,
                   ErrorAccessingCalendar CALENDAR_NAME SOURCE_ACCOUNT,
                   SourceNotFound SOURCE_ACCOUNT],
        target_items = Some [appointment ''Dentist'' (clock 9 0) (clock 10 0)]\<rparr>
   \<and> exit_status (main [\<lparr>Name = SOURCE_ACCOUNT, Folders = [(''Inbox'', [])]\<rparr>,
            \<lparr>Name = TARGET_ACCOUNT,
             Folders = [(CALENDAR_NAME, [appointment ''Dentist'' (clock 9 0) (clock 10 0)])]\<rparr>]
           (clock 8 0) []) = 0"
proof -
  let ?ns = "[\<lparr>Name = SOURCE_ACCOUNT, Folders = [(''Inbox'', [])]\<rparr>,
              \<lparr>Name = TARGET_ACCOUNT,
               Folders = [(CALENDAR_NAME, [appointment ''Dentist'' (clock 9 0) (clock 10 0)])]\<rparr>]"
  have none: "snd (get_calendar ?ns SOURCE_ACCOUNT CALENDAR_NAME) = None"
    by (simp add: SOURCE_ACCOUNT_def TARGET_ACCOUNT_def CALENDAR_NAME_def)
  have run: "main ?ns (clock 8 0) []
     = \<lparr>exit_status = 0,
        console = [Syncing SOURCE_ACCOUNT TARGET_ACCOUNT CALENDAR_NAME,
                   ErrorAccessingCalendar CALENDAR_NAME SOURCE_ACCOUNT,
                   SourceNotFound SOURCE_ACCOUNT],
        target_items = Some [appointment ''Dentist'' (clock 9 0) (clock 10 0)]\<rparr>"
    by (simp add: main_def SOURCE_ACCOUNT_def TARGET_ACCOUNT_def CALENDAR_NAME_def)
  show ?thesis
    using none run startup_abort [of ?ns "clock 8 0" "[]"] by blast
qed

subsection \<open>The end of a run\<close>

text \<open>
  Claim C7, as stated, fails: the script keeps no counts and prints no summary of them.
  After a run with one event booked, one skipped and one in error, the final line is
  the same fixed text as after a run over an empty source calendar.
\<close>

theorem final_line_carries_no_counts:
  "stdout (sync [appointment ''A'' (clock 9 0) (clock 10 0),
                 appointment ''B'' (clock 9 30) (clock 11 0),
                 appointment ''C'' (clock 12 0) (clock 13 0)] [] (clock 8 0)
             [False, False, False, False, False, True])
     = [BookedBusyTime (Some (clock 9 0)) (Some (clock 10 0)),
        OverlapFound ''Busy'' (clock 9 0) (clock 10 0),
        ConflictExists (Some (clock 9 30)) (Some (clock 11 0)),
        ErrorProcessing ''C'' com_error,
        SyncingComplete]
   \<and> stdout (sync [] [] (clock 8 0) []) = [SyncingComplete]"
  by (simp add: script_defs)

text \<open>
  Claim C7, amended. After processing all fetched events (no exception was left
  uncaught) the run prints the fixed line \<open>Syncing complete.\<close> and nothing after it. It
  accumulates and reports no counts of booked, skipped or errored events: the outcomes
  appear only as the per-event lines printed before, exactly one terminal line for
  each fetched event.
\<close>

theorem run_ends_with_completion_line:
  "uncaught (sync source_calendar target_calendar now fs) = None \<longrightarrow>
     stdout (sync source_calendar target_calendar now fs)
       = stdout (process_events
                   \<lparr>Items = target_calendar, faults = tl fs, stdout = [], uncaught = None\<rparr>
                   (get_events source_calendar (START_DATE now) (END_DATE now)))
         @ [SyncingComplete]
     \<and> length (filter terminal (stdout (sync source_calendar target_calendar now fs)))
         = length (get_events source_calendar (START_DATE now) (END_DATE now))"
proof
  let ?start = "\<lparr>Items = target_calendar, faults = tl fs, stdout = [], uncaught = None\<rparr>"
  let ?evs = "get_events source_calendar (START_DATE now) (END_DATE now)"
  assume ok: "uncaught (sync source_calendar target_calendar now fs) = None"
  then have fetch: "take 1 fs \<noteq> [True]"
    by (auto simp: sync_eq)
  have loop: "uncaught (process_events ?start ?evs) = None"
    using ok fetch by (simp add: sync_eq Let_def split: if_splits)
  then have out: "stdout (sync source_calendar target_calendar now fs)
                    = stdout (process_events ?start ?evs) @ [SyncingComplete]"
    using fetch by (simp add: sync_eq Let_def)
  moreover have "length (filter terminal (stdout (process_events ?start ?evs))) = length ?evs"
    using process_events_terminal [OF loop] by simp
  ultimately show "stdout (sync source_calendar target_calendar now fs)
       = stdout (process_events ?start ?evs) @ [SyncingComplete]
     \<and> length (filter terminal (stdout (sync source_calendar target_calendar now fs)))
         = length ?evs"
    by simp
qed

theorem run_ends_with_completion_line_witness:
  "uncaught (sync [appointment ''A'' (clock 9 0) (clock 10 0),
                   appointment ''B'' (clock 9 30) (clock 11 0),
                   appointment ''C'' (clock 12 0) (clock 13 0)] [] (clock 8 0)
               [False, False, False, False, False, True]) = None
   \<and> length (filter terminal (stdout (sync [appointment ''A'' (clock 9 0) (clock 10 0),
                 appointment ''B'' (clock 9 30) (clock 11 0),
                 appointment ''C'' (clock 12 0) (clock 13 0)] [] (clock 8 0)
             [False, False, False, False, False, True]))) = 3"
proof -
  let ?src = "[appointment ''A'' (clock 9 0) (clock 10 0),
               appointment ''B'' (clock 9 30) (clock 11 0),
               appointment ''C'' (clock 12 0) (clock 13 0)]"
  have ok: "uncaught (sync ?src [] (clock 8 0) [False, False, False, False, False, True]) = None"
    by (simp add: script_defs)
  have fetched: "length (get_events ?src (START_DATE (clock 8 0)) (END_DATE (clock 8 0))) = 3"
    by (simp add: script_defs)
  have "length (filter terminal
          (stdout (sync ?src [] (clock 8 0) [False, False, False, False, False, True])))
          = length (get_events ?src (START_DATE (clock 8 0)) (END_DATE (clock 8 0)))"
    using ok
      run_ends_with_completion_line
        [of ?src "[]" "clock 8 0" "[False, False, False, False, False, True]"]
    by blast
  then have "length (filter terminal
          (stdout (sync ?src [] (clock 8 0) [False, False, False, False, False, True]))) = 3"
    using fetched by (rule trans)
  with ok show ?thesis by (rule conjI)
qed

subsection \<open>The fetch\<close>

text \<open>
  Claim C9, as stated, fails at the lower bound: the filter compares with the window
  bounds rendered to the minute. With the run started at 08:00:20, an appointment that
  starts at 08:00:00, before the window, is fetched.
\<close>

theorem fetch_includes_start_of_current_minute:
  "\<not> (clock 8 0 \<ge> START_DATE (clock 8 0 + 20000000))
   \<and> get_events [appointment ''Call'' (clock 8 0) (clock 9 0)]
        (START_DATE (clock 8 0 + 20000000)) (END_DATE (clock 8 0 + 20000000))
     = [appointment ''Call'' (clock 8 0) (clock 9 0)]"
  by (simp add: script_defs)

text \<open>
  Claim C9, amended. The fetch is full containment, not intersection: it returns
  exactly the calendar items with \<open>start \<ge> window.start\<close> and \<open>end \<le> window.end\<close>, both
  window bounds truncated to the minute. The window is 30 days long. A source event
  that starts inside the window but ends after its end is not fetched, so never
  synchronized.
\<close>

theorem fetch_is_containment:
  "set (get_events calendar_folder start_date end_date)
     = {x \<in> set calendar_folder. \<exists>s e. Start x = Some s \<and> End x = Some e
          \<and> strftime start_date \<le> s \<and> e \<le> strftime end_date}
   \<and> (Start x = Some s \<and> End x = Some e \<and> start_date \<le> s \<and> s \<le> end_date \<and> end_date < e
        \<longrightarrow> x \<notin> set (get_events calendar_folder start_date end_date))
   \<and> END_DATE now = START_DATE now + 30 * 86400000000"
proof -
  have "window_filter start_date end_date y \<longleftrightarrow>
          (\<exists>s e. Start y = Some s \<and> End y = Some e
             \<and> strftime start_date \<le> s \<and> e \<le> strftime end_date)" for y
    by (auto simp: window_filter_def split: option.splits)
  then have fetched: "set (get_events calendar_folder start_date end_date)
     = {x \<in> set calendar_folder. \<exists>s e. Start x = Some s \<and> End x = Some e
          \<and> strftime start_date \<le> s \<and> e \<le> strftime end_date}"
    by (auto simp: get_events_def)
  have "x \<notin> set (get_events calendar_folder start_date end_date)"
    if "Start x = Some s" "End x = Some e" "end_date < e"
  proof -
    have "\<not> e \<le> strftime end_date"
      using that(3) strftime_le [of end_date] by simp
    with that(1,2) show ?thesis
      by (simp add: fetched)
  qed
  then show ?thesis
    using fetched by (simp add: END_DATE_def days_def)
qed

text \<open>
  A run started at 08:00: an appointment on the same morning is fetched, one that
  starts on day 29 and ends on day 31 is not.
\<close>

theorem fetch_is_containment_witness:
  "Start (appointment ''Offsite'' (days 29) (days 31)) = Some (days 29)
   \<and> End (appointment ''Offsite'' (days 29) (days 31)) = Some (days 31)
   \<and> START_DATE (clock 8 0) \<le> days 29 \<and> days 29 \<le> END_DATE (clock 8 0)
   \<and> END_DATE (clock 8 0) < days 31
   \<and> appointment ''Offsite'' (days 29) (days 31)
       \<notin> set (get_events [appointment ''Review'' (clock 9 0) (clock 10 0),
                          appointment ''Offsite'' (days 29) (days 31)]
                 (START_DATE (clock 8 0)) (END_DATE (clock 8 0)))
   \<and> get_events [appointment ''Review'' (clock 9 0) (clock 10 0),
                  appointment ''Offsite'' (days 29) (days 31)]
        (START_DATE (clock 8 0)) (END_DATE (clock 8 0))
     = [appointment ''Review'' (clock 9 0) (clock 10 0)]"
proof -
  let ?x = "appointment ''Offsite'' (days 29) (days 31)"
  let ?folder = "[appointment ''Review'' (clock 9 0) (clock 10 0), ?x]"
  have h: "Start ?x = Some (days 29) \<and> End ?x = Some (days 31)
           \<and> START_DATE (clock 8 0) \<le> days 29 \<and> days 29 \<le> END_DATE (clock 8 0)
           \<and> END_DATE (clock 8 0) < days 31"
    by (simp add: script_defs)
  have fetched: "get_events ?folder (START_DATE (clock 8 0)) (END_DATE (clock 8 0))
                   = [appointment ''Review'' (clock 9 0) (clock 10 0)]"
    by (simp add: script_defs)
  show ?thesis
    using h fetched
      fetch_is_containment [of ?folder "START_DATE (clock 8 0)" "END_DATE (clock 8 0)"
        ?x "days 29" "days 31"]
    by blast
qed

end
